theory Spec2Isabelle
  imports Main
begin

section \<open>Strings\<close>

text \<open>
  A Python \<open>str\<close> is modelled as a \<open>string\<close> whose characters are the code points
  0..255 (Latin-1), one \<open>char\<close> per code point. The string methods the program calls
  are written out on that range. The input of the parse step has a wider type, see below.
\<close>

definition lower_char :: "char \<Rightarrow> char" where
  \<comment> \<open>\<open>str.lower\<close> on one code point below 256: A-Z and the accented capitals
      (0xC0-0xDE without the multiplication sign 0xD7) move up by 32.\<close>
  "lower_char c =
     (let n = (of_char c :: nat)
      in if (65 \<le> n \<and> n \<le> 90) \<or> (192 \<le> n \<and> n \<le> 214) \<or> (216 \<le> n \<and> n \<le> 222)
         then char_of (n + 32) else c)"

definition lower :: "string \<Rightarrow> string" where
  "lower s = map lower_char s"

fun startswith :: "string \<Rightarrow> string \<Rightarrow> bool" where
  "startswith s [] = True"
| "startswith [] (p # ps) = False"
| "startswith (c # cs) (p # ps) = (c = p \<and> startswith cs ps)"

fun str_in :: "string \<Rightarrow> string \<Rightarrow> bool" where
  \<comment> \<open>\<open>sub in s\<close> on strings: \<open>sub\<close> starts at some position of \<open>s\<close>.\<close>
  "str_in sub [] = (sub = [])"
| "str_in sub (c # cs) = (startswith (c # cs) sub \<or> str_in sub cs)"

definition isspace :: "char \<Rightarrow> bool" where
  \<comment> \<open>the code points below 256 for which \<open>str.isspace\<close> holds\<close>
  "isspace c = (c \<in> set [CHR 0x09, CHR 0x0A, CHR 0x0B, CHR 0x0C, CHR 0x0D,
                          CHR 0x1C, CHR 0x1D, CHR 0x1E, CHR 0x1F, CHR '' '',
                          CHR 0x85, CHR 0xA0])"

definition strip :: "string \<Rightarrow> string" where
  \<comment> \<open>\<open>s.strip()\<close>\<close>
  "strip s = rev (dropWhile isspace (rev (dropWhile isspace s)))"

definition strip_chars :: "string \<Rightarrow> string \<Rightarrow> string" where
  \<comment> \<open>\<open>s.strip(chars)\<close>: removes the characters of \<open>chars\<close> at both ends\<close>
  "strip_chars chars s =
     rev (dropWhile (\<lambda>c. c \<in> set chars) (rev (dropWhile (\<lambda>c. c \<in> set chars) s)))"

definition replace_char :: "char \<Rightarrow> char \<Rightarrow> string \<Rightarrow> string" where
  \<comment> \<open>\<open>s.replace(old, new)\<close> for one-character \<open>old\<close> and \<open>new\<close>\<close>
  "replace_char old new s = map (\<lambda>c. if c = old then new else c) s"

fun split_acc :: "string \<Rightarrow> string \<Rightarrow> string list" where
  "split_acc cur [] = (if cur = [] then [] else [cur])"
| "split_acc cur (c # cs) =
     (if isspace c then (if cur = [] then split_acc [] cs else cur # split_acc [] cs)
      else split_acc (cur @ [c]) cs)"

definition split :: "string \<Rightarrow> string list" where
  \<comment> \<open>\<open>s.split()\<close>: the maximal runs of non-whitespace characters\<close>
  "split s = split_acc [] s"

fun join :: "string \<Rightarrow> string list \<Rightarrow> string" where
  \<comment> \<open>\<open>sep.join(xs)\<close>\<close>
  "join sep [] = []"
| "join sep [x] = x"
| "join sep (x # y # ys) = x @ sep @ join sep (y # ys)"

subsection \<open>Text that may hold lone surrogates\<close>

text \<open>
  The text handed to the parse step is a \<open>str\<close> too, but there one more kind of code point
  matters: a lone surrogate (U+D800..U+DFFF) has no UTF-8 encoding, and the parser encodes
  its input before it parses. Such a text is a list of \<open>pychar\<close>: a code point below 256,
  or a lone surrogate given by its offset from U+D800. A surrogate is not whitespace, has
  no case and differs from every character of the patterns below.
\<close>

datatype pychar = Latin char | Surrogate nat

definition py_str :: "string \<Rightarrow> pychar list" where
  "py_str s = map Latin s"

definition py_isspace :: "pychar \<Rightarrow> bool" where
  "py_isspace c = (case c of Latin a \<Rightarrow> isspace a | Surrogate n \<Rightarrow> False)"

definition py_lower_char :: "pychar \<Rightarrow> pychar" where
  "py_lower_char c = (case c of Latin a \<Rightarrow> Latin (lower_char a) | Surrogate n \<Rightarrow> Surrogate n)"

definition py_strip :: "pychar list \<Rightarrow> pychar list" where
  \<comment> \<open>\<open>s.strip()\<close>\<close>
  "py_strip s = rev (dropWhile py_isspace (rev (dropWhile py_isspace s)))"

definition has_surrogate :: "pychar list \<Rightarrow> bool" where
  "has_surrogate s = list_ex (\<lambda>c. case c of Latin a \<Rightarrow> False | Surrogate n \<Rightarrow> True) s"

definition latin_chars :: "pychar list \<Rightarrow> string" where
  \<comment> \<open>the characters of a text without surrogates\<close>
  "latin_chars s = concat (map (\<lambda>c. case c of Latin a \<Rightarrow> [a] | Surrogate n \<Rightarrow> []) s)"

subsection \<open>The two substitutions of the cleaning step\<close>

text \<open>
  \<open>re.sub(r'<\?xml[^>]*\?>', '', s, flags=re.I)\<close> and
  \<open>re.sub(r'<!DOCTYPE[^>]*>', '', s, flags=re.I)\<close>. A match at a position is the literal
  prefix (its five or nine characters compared without case), then the characters up to the
  first \<open>>\<close>, which for the first pattern must be preceded by a \<open>?\<close> that is not part of
  the prefix. The matcher returns the length of the match; the substitution scans from the
  left and resumes after each match.
\<close>

definition match_xml_decl :: "pychar list \<Rightarrow> nat option" where
  "match_xml_decl s =
     (if map py_lower_char (take 5 s) = py_str ''<?xml'' then
        (let rest = drop 5 s; p = takeWhile (\<lambda>c. c \<noteq> Latin (CHR ''>'')) rest
         in if length p < length rest \<and> p \<noteq> [] \<and> last p = Latin (CHR ''?'')
            then Some (5 + length p + 1) else None)
      else None)"

definition match_doctype :: "pychar list \<Rightarrow> nat option" where
  "match_doctype s =
     (if map py_lower_char (take 9 s) = py_str ''<!doctype'' then
        (let rest = drop 9 s; p = takeWhile (\<lambda>c. c \<noteq> Latin (CHR ''>'')) rest
         in if length p < length rest then Some (9 + length p + 1) else None)
      else None)"

fun re_sub_empty :: "('a list \<Rightarrow> nat option) \<Rightarrow> 'a list \<Rightarrow> 'a list" where
  "re_sub_empty m [] = []"
| "re_sub_empty m (c # cs) =
     (case m (c # cs) of
        Some n \<Rightarrow> re_sub_empty m (drop (n - 1) cs)
      | None \<Rightarrow> c # re_sub_empty m cs)"

subsection \<open>Errors\<close>

datatype error = HTTPStatusError nat | UnicodeEncodeError | OtherError

section \<open>The classifier\<close>

definition COMPANY_KEYWORDS :: "string list" where
  "COMPANY_KEYWORDS =
     [''inc'', ''ltd'', ''llc'', ''corp'', ''corporation'', ''pharmaceuticals'',
      ''therapeutics'', ''biotech'', ''biosciences'', ''diagnostics'',
      ''labs'', ''laboratories'', ''gmbh'', ''ag'', ''s.a.'']"

definition is_company_affiliation :: "string \<Rightarrow> bool" where
  "is_company_affiliation affiliation =
     (if affiliation = [] then False
      else (let affiliation_lower = lower affiliation
            in list_ex (\<lambda>keyword. str_in keyword affiliation_lower) COMPANY_KEYWORDS))"

section \<open>The result record\<close>

record PaperResult =
  pubmed_id :: string
  title :: string
  publication_date :: string
  non_academic_authors :: "string list"
  company_affiliations :: "string list"
  corresponding_author_email :: "string option"

definition to_csv_row :: "PaperResult \<Rightarrow> string list" where
  \<comment> \<open>\<open>x or "N/A"\<close> takes \<open>"N/A"\<close> when \<open>x\<close> is \<open>None\<close> or the empty string\<close>
  "to_csv_row self =
     [pubmed_id self,
      title self,
      publication_date self,
      join ''; '' (non_academic_authors self),
      join ''; '' (company_affiliations self),
      (case corresponding_author_email self of
         None \<Rightarrow> ''N/A''
       | Some e \<Rightarrow> if e = [] then ''N/A'' else e)]"

definition get_csv_header :: "string list" where
  "get_csv_header =
     [''PubmedID'',
      ''Title'',
      ''Publication Date'',
      ''Non-academic Author(s)'',
      ''Company Affiliation(s)'',
      ''Corresponding Author Email'']"

section \<open>Element trees\<close>

text \<open>
  An element as the parser of the standard library builds it: a tag, the attribute
  dictionary, the text before the first child, the children in document order, and the
  text that follows the element's end tag.
\<close>

datatype element =
  Element (tag: string) (attrib: "(string \<times> string) list") (elem_text: "string option")
          (children: "element list") (tail: "string option")

fun descendants :: "element \<Rightarrow> element list" where
  \<comment> \<open>the elements below a node, in document order, the node itself excluded\<close>
  "descendants (Element t a x cs y) = concat (map (\<lambda>c. c # descendants c) cs)"

definition find_desc :: "string \<Rightarrow> element \<Rightarrow> element option" where
  \<comment> \<open>\<open>e.find(".//name")\<close>\<close>
  "find_desc name e = find (\<lambda>d. tag d = name) (descendants e)"

definition findall_desc :: "string \<Rightarrow> element \<Rightarrow> element list" where
  \<comment> \<open>\<open>e.findall(".//name")\<close>\<close>
  "findall_desc name e = filter (\<lambda>d. tag d = name) (descendants e)"

definition findall_child :: "string \<Rightarrow> element \<Rightarrow> element list" where
  \<comment> \<open>\<open>e.findall("./name")\<close>\<close>
  "findall_child name e = filter (\<lambda>d. tag d = name) (children e)"

definition text_or_empty :: "element \<Rightarrow> string" where
  \<comment> \<open>\<open>e.text or ""\<close>\<close>
  "text_or_empty e = (case elem_text e of None \<Rightarrow> [] | Some t \<Rightarrow> t)"

definition findtext_child :: "string \<Rightarrow> string \<Rightarrow> element \<Rightarrow> string" where
  \<comment> \<open>\<open>e.findtext("name", default)\<close>\<close>
  "findtext_child name dflt e =
     (case find (\<lambda>d. tag d = name) (children e) of
        None \<Rightarrow> dflt
      | Some n \<Rightarrow> text_or_empty n)"

definition findtext_desc :: "string \<Rightarrow> string \<Rightarrow> element \<Rightarrow> string" where
  \<comment> \<open>\<open>e.findtext(".//name", default)\<close>\<close>
  "findtext_desc name dflt e =
     (case find_desc name e of
        None \<Rightarrow> dflt
      | Some n \<Rightarrow> text_or_empty n)"

definition opt_text :: "string option \<Rightarrow> string list" where
  "opt_text t = (case t of None \<Rightarrow> [] | Some s \<Rightarrow> [s])"

fun itertext :: "element \<Rightarrow> string list" where
  \<comment> \<open>the text pieces of a subtree in document order: the node's text, then for each
      child its own pieces followed by its tail\<close>
  "itertext (Element t a x cs y) =
     opt_text x @ concat (map (\<lambda>c. itertext c @ opt_text (tail c)) cs)"

definition joined_text :: "element \<Rightarrow> string" where
  \<comment> \<open>\<open>"".join(e.itertext()).strip()\<close>\<close>
  "joined_text e = strip (concat (itertext e))"

section \<open>Field extraction\<close>

definition get_publication_date :: "element \<Rightarrow> string" where
  "get_publication_date article_node =
     (case find_desc ''PubDate'' article_node of
        Some date_node \<Rightarrow>
          (let year = findtext_child ''Year'' ''N/A'' date_node;
               month = findtext_child ''Month'' ''N/A'' date_node;
               day = findtext_child ''Day'' ''N/A'' date_node
           in year @ ''-'' @ month @ ''-'' @ day)
      | None \<Rightarrow> ''N/A'')"

fun email_word_loop :: "string list \<Rightarrow> string option" where
  \<comment> \<open>the inner loop over the reversed words; \<open>None\<close> when it ends without returning\<close>
  "email_word_loop [] = None"
| "email_word_loop (word # ws) =
     (if str_in ''@'' word then Some (strip_chars ''.;,'' word) else email_word_loop ws)"

definition author_affiliation_text :: "element \<Rightarrow> string" where
  "author_affiliation_text author_node =
     (case find_desc ''Affiliation'' author_node of
        Some affiliation_text_node \<Rightarrow> joined_text affiliation_text_node
      | None \<Rightarrow> [])"

definition is_corr_attr :: "element \<Rightarrow> bool" where
  \<comment> \<open>\<open>author_node.get("CorrespondingAuthor", "N") == "Y"\<close>\<close>
  "is_corr_attr author_node =
     ((case map_of (attrib author_node) ''CorrespondingAuthor'' of
         None \<Rightarrow> ''N''
       | Some v \<Rightarrow> v) = ''Y'')"

fun email_author_loop :: "element list \<Rightarrow> string option" where
  "email_author_loop [] = None"
| "email_author_loop (author_node # rest) =
     (let affiliation_text = author_affiliation_text author_node;
          is_corr_text = (affiliation_text \<noteq> [] \<and> str_in ''Corresponding'' affiliation_text)
      in if is_corr_attr author_node \<or> is_corr_text then
           (if affiliation_text \<noteq> [] \<and> str_in ''@'' affiliation_text then
              (let words = split (replace_char (CHR '')'') (CHR '' '')
                                   (replace_char (CHR ''('') (CHR '' '') affiliation_text))
               in case email_word_loop (rev words) of
                    Some email \<Rightarrow> Some email
                  | None \<Rightarrow> email_author_loop rest)
            else email_author_loop rest)
         else email_author_loop rest)"

definition get_corresponding_author_email :: "element \<Rightarrow> string option" where
  "get_corresponding_author_email author_list_node =
     email_author_loop (findall_child ''Author'' author_list_node)"

section \<open>Parse and filter\<close>

definition author_step :: "element \<Rightarrow> string list \<times> string list \<Rightarrow> string list \<times> string list" where
  \<comment> \<open>the body of the loop over the authors, on the pair
      \<open>(non_academic_authors, company_affiliations)\<close>\<close>
  "author_step author_node st =
     (case find_desc ''Affiliation'' author_node of
        None \<Rightarrow> st
      | Some affiliation_node \<Rightarrow>
          (let affiliation_text = joined_text affiliation_node
           in if is_company_affiliation affiliation_text then
                (let last_name = findtext_desc ''LastName'' [] author_node;
                     fore_name = findtext_desc ''ForeName'' [] author_node;
                     author_name = strip (fore_name @ '' '' @ last_name);
                     authors' = (if author_name \<noteq> [] then fst st @ [author_name] else fst st);
                     affiliations' = (if affiliation_text \<notin> set (snd st)
                                      then snd st @ [affiliation_text] else snd st)
                 in (authors', affiliations'))
              else st))"

fun author_loop :: "element list \<Rightarrow> string list \<times> string list \<Rightarrow> string list \<times> string list" where
  "author_loop [] st = st"
| "author_loop (author_node # rest) st = author_loop rest (author_step author_node st)"

definition article_step :: "element \<Rightarrow> PaperResult list \<Rightarrow> PaperResult list" where
  \<comment> \<open>the body of the loop over the articles, on the list \<open>results\<close>\<close>
  "article_step article_node results =
     (case find_desc ''PMID'' article_node of
        None \<Rightarrow> results
      | Some paper_id_node \<Rightarrow>
     (case find_desc ''ArticleTitle'' article_node of
        None \<Rightarrow> results
      | Some title_node \<Rightarrow>
     (case find_desc ''AuthorList'' article_node of
        None \<Rightarrow> results
      | Some author_list_node \<Rightarrow>
          (let pubmed_id = (if text_or_empty paper_id_node = [] then ''N/A''
                            else text_or_empty paper_id_node);
               title = (if joined_text title_node = [] then ''No Title''
                        else joined_text title_node);
               publication_date = get_publication_date article_node;
               st = author_loop (findall_child ''Author'' author_list_node) ([], [])
           in if fst st \<noteq> [] then
                results @
                [\<lparr>pubmed_id = pubmed_id,
                  title = title,
                  publication_date = publication_date,
                  non_academic_authors = fst st,
                  company_affiliations = snd st,
                  corresponding_author_email = get_corresponding_author_email author_list_node\<rparr>]
              else results))))"

fun article_loop :: "element list \<Rightarrow> PaperResult list \<Rightarrow> PaperResult list" where
  "article_loop [] results = results"
| "article_loop (article_node # rest) results = article_loop rest (article_step article_node results)"

definition clean_and_wrap :: "pychar list \<Rightarrow> pychar list" where
  \<comment> \<open>the text handed to the parser\<close>
  "clean_and_wrap xml_data =
     (let cleaned_xml = re_sub_empty match_xml_decl xml_data;
          cleaned_xml = re_sub_empty match_doctype cleaned_xml;
          cleaned_xml = py_strip cleaned_xml
      in py_str ''<root>'' @ cleaned_xml @ py_str ''</root>'')"

text \<open>
  \<open>ET.fromstring\<close> belongs to the standard library. Given a \<open>str\<close>, it encodes the text
  as UTF-8 and then parses the bytes. The encoding raises \<open>UnicodeEncodeError\<close> when the text
  holds a lone surrogate. The parser proper is a parameter of the model, \<open>None\<close> standing
  for the \<open>ParseError\<close> it raises.
\<close>

definition fromstring_str :: "(string \<Rightarrow> element option) \<Rightarrow> pychar list \<Rightarrow> error + element option" where
  "fromstring_str fromstring s =
     (if has_surrogate s then Inl UnicodeEncodeError else Inr (fromstring (latin_chars s)))"

definition parse_and_filter_papers ::
  "(string \<Rightarrow> element option) \<Rightarrow> pychar list \<Rightarrow> error + PaperResult list" where
  \<comment> \<open>\<open>except ET.ParseError\<close> catches the parse error and no other\<close>
  "parse_and_filter_papers fromstring xml_data =
     (if py_strip xml_data = [] then Inr []
      else (case fromstring_str fromstring (clean_and_wrap xml_data) of
              Inl e \<Rightarrow> Inl e
            | Inr None \<Rightarrow> Inr []
            | Inr (Some root) \<Rightarrow> Inr (article_loop (findall_desc ''PubmedArticle'' root) [])))"

section \<open>Search and fetch\<close>

text \<open>
  The two endpoints are parameters. A call either fails below HTTP (\<open>TransportError\<close>) or
  gives a response with a status code and a payload: for the search endpoint what
  \<open>response.json()\<close> decodes (\<open>None\<close> when decoding raises), a dictionary of
  dictionaries of identifier lists; for the fetch endpoint \<open>response.text\<close>.
\<close>

datatype 'a http_result = TransportError | Response nat 'a

type_synonym search_data = "(string \<times> (string \<times> string list) list) list"

definition raise_for_status :: "'a http_result \<Rightarrow> error + 'a" where
  \<comment> \<open>returns on the status codes 200..299, raises \<open>HTTPStatusError\<close> on the others\<close>
  "raise_for_status r =
     (case r of
        TransportError \<Rightarrow> Inl OtherError
      | Response status payload \<Rightarrow>
          if 200 \<le> status \<and> status < 300 then Inr payload else Inl (HTTPStatusError status))"

definition search_pubmed ::
  "(string \<Rightarrow> int \<Rightarrow> search_data option http_result) \<Rightarrow> string \<Rightarrow> int \<Rightarrow> error + string list" where
  "search_pubmed esearch query max_ret =
     (case raise_for_status (esearch query max_ret) of
        Inl e \<Rightarrow> Inl e
      | Inr None \<Rightarrow> Inl OtherError
      | Inr (Some data) \<Rightarrow>
          (case map_of data ''esearchresult'' of
             None \<Rightarrow> Inr []
           | Some esearchresult \<Rightarrow>
               (case map_of esearchresult ''idlist'' of
                  None \<Rightarrow> Inr []
                | Some pmids \<Rightarrow> Inr pmids)))"

definition MAX_UIDS_PER_REQUEST :: nat where
  "MAX_UIDS_PER_REQUEST = 200"

function fetch_loop ::
  "(string \<Rightarrow> string http_result) \<Rightarrow> string list \<Rightarrow> nat \<Rightarrow> string \<Rightarrow> string list list
     \<Rightarrow> string list list \<times> (error + string)" where
  "fetch_loop efetch pmids i all_xml_data sent =
     (if i < length pmids then
        (let batch = take MAX_UIDS_PER_REQUEST (drop i pmids)
         in case raise_for_status (efetch (join '','' batch)) of
              Inl e \<Rightarrow> (sent @ [batch], Inl e)
            | Inr response_text \<Rightarrow>
                fetch_loop efetch pmids (i + MAX_UIDS_PER_REQUEST)
                  (all_xml_data @ response_text) (sent @ [batch]))
      else (sent, Inr all_xml_data))"
  by pat_completeness auto
termination
  by (relation "measure (\<lambda>(efetch, pmids, i, all_xml_data, sent). length pmids - i)")
     (auto simp: MAX_UIDS_PER_REQUEST_def)

definition fetch_paper_details ::
  "(string \<Rightarrow> string http_result) \<Rightarrow> string list \<Rightarrow> string list list \<times> (error + string)" where
  \<comment> \<open>the first component lists the batches sent to the endpoint, one entry per request\<close>
  "fetch_paper_details efetch pmids =
     (if pmids = [] then ([], Inr [])
      else fetch_loop efetch pmids 0 [] [])"

section \<open>The orchestrator and the command line\<close>

definition find_papers_try ::
  "(string \<Rightarrow> int \<Rightarrow> search_data option http_result) \<Rightarrow> (string \<Rightarrow> string http_result)
     \<Rightarrow> (string \<Rightarrow> element option) \<Rightarrow> string \<Rightarrow> error + PaperResult list" where
  \<comment> \<open>the body of the \<open>try\<close> block; \<open>response.text\<close> is decoded text and holds no
      surrogate\<close>
  "find_papers_try esearch efetch fromstring query =
     (case search_pubmed esearch query 100 of
        Inl e \<Rightarrow> Inl e
      | Inr pmids \<Rightarrow>
          if pmids = [] then Inr []
          else (case snd (fetch_paper_details efetch pmids) of
                  Inl e \<Rightarrow> Inl e
                | Inr xml_data \<Rightarrow>
                    if xml_data = [] then Inr []
                    else parse_and_filter_papers fromstring (py_str xml_data)))"

definition find_papers ::
  "(string \<Rightarrow> int \<Rightarrow> search_data option http_result) \<Rightarrow> (string \<Rightarrow> string http_result)
     \<Rightarrow> (string \<Rightarrow> element option) \<Rightarrow> string \<Rightarrow> error + PaperResult list" where
  \<comment> \<open>\<open>except Exception\<close> turns every error of the body into the empty list\<close>
  "find_papers esearch efetch fromstring query =
     (case find_papers_try esearch efetch fromstring query of
        Inl e \<Rightarrow> Inr []
      | Inr filtered_papers \<Rightarrow> Inr filtered_papers)"

definition main ::
  "(string \<Rightarrow> int \<Rightarrow> search_data option http_result) \<Rightarrow> (string \<Rightarrow> string http_result)
     \<Rightarrow> (string \<Rightarrow> element option) \<Rightarrow> (string list list \<Rightarrow> error + unit) \<Rightarrow> string \<Rightarrow> nat" where
  \<comment> \<open>the exit code of the command; \<open>write_rows\<close> stands for the CSV writer on the chosen
      target, which may fail\<close>
  "main esearch efetch fromstring write_rows query =
     (case find_papers esearch efetch fromstring query of
        Inl e \<Rightarrow> 1
      | Inr results \<Rightarrow>
          if results = [] then 0
          else (case write_rows (get_csv_header # map to_csv_row results) of
                  Inl e \<Rightarrow> 1
                | Inr u \<Rightarrow> 0))"

section \<open>Notions used to state the properties\<close>

function chunks :: "nat \<Rightarrow> 'a list \<Rightarrow> 'a list list" where
  \<comment> \<open>the consecutive chunks of \<open>n\<close> elements of a list, the last one possibly shorter\<close>
  "chunks n xs = (if n = 0 \<or> xs = [] then [] else take n xs # chunks n (drop n xs))"
  by pat_completeness auto
termination
  by (relation "measure (\<lambda>(n, xs). length xs)") auto

definition response_text :: "string http_result \<Rightarrow> string" where
  \<comment> \<open>the body of a response\<close>
  "response_text r = (case r of TransportError \<Rightarrow> [] | Response status t \<Rightarrow> t)"

definition is_success :: "'a http_result \<Rightarrow> bool" where
  \<comment> \<open>the call gave a response with a status code in 200..299\<close>
  "is_success r = (case r of TransportError \<Rightarrow> False | Response status t \<Rightarrow> 200 \<le> status \<and> status < 300)"

definition display_name :: "element \<Rightarrow> string" where
  \<comment> \<open>the display name built for an author: fore name, a space, last name, stripped\<close>
  "display_name author_node =
     strip (findtext_desc ''ForeName'' [] author_node @ '' '' @ findtext_desc ''LastName'' [] author_node)"

definition company_author :: "element \<Rightarrow> bool" where
  \<comment> \<open>the author's affiliation text is classified as a company's\<close>
  "company_author author_node = is_company_affiliation (author_affiliation_text author_node)"

definition matched_affiliations :: "element \<Rightarrow> string list" where
  \<comment> \<open>the affiliation texts of the company-classified authors of an author list, one entry
      per author, in document order\<close>
  "matched_affiliations author_list_node =
     map author_affiliation_text (filter company_author (findall_child ''Author'' author_list_node))"

fun first_seen :: "'a list \<Rightarrow> 'a list" where
  \<comment> \<open>each value of a list once, at the position of its first occurrence\<close>
  "first_seen [] = []"
| "first_seen (x # xs) = x # filter (\<lambda>y. y \<noteq> x) (first_seen xs)"

definition corresponding :: "element \<Rightarrow> bool" where
  \<comment> \<open>the author is flagged by the attribute, or the affiliation text says so\<close>
  "corresponding author_node =
     (is_corr_attr author_node \<or> str_in ''Corresponding'' (author_affiliation_text author_node))"

definition email_tokens :: "element \<Rightarrow> string list" where
  \<comment> \<open>the affiliation text with both parentheses replaced by spaces, split on whitespace\<close>
  "email_tokens author_node =
     split (replace_char (CHR '')'') (CHR '' '')
              (replace_char (CHR ''('') (CHR '' '') (author_affiliation_text author_node)))"

definition rstrip_chars :: "string \<Rightarrow> string \<Rightarrow> string" where
  \<comment> \<open>removes the characters of \<open>chars\<close> at the end only\<close>
  "rstrip_chars chars s = rev (dropWhile (\<lambda>c. c \<in> set chars) (rev s))"

definition email_as_described :: "(string \<Rightarrow> string) \<Rightarrow> element \<Rightarrow> string option" where
  \<comment> \<open>the email as the specification words it: the first corresponding author whose
      affiliation text contains \<open>@\<close>, the last token of that text containing \<open>@\<close>, trimmed
      by \<open>trim\<close>\<close>
  "email_as_described trim author_list_node =
     (case find (\<lambda>a. corresponding a \<and> str_in ''@'' (author_affiliation_text a))
                (findall_child ''Author'' author_list_node) of
        None \<Rightarrow> None
      | Some a \<Rightarrow> map_option trim (find (str_in ''@'') (rev (email_tokens a))))"

section \<open>Example documents\<close>

definition ex_author :: "(string \<times> string) list \<Rightarrow> string \<Rightarrow> string \<Rightarrow> string \<Rightarrow> element" where
  "ex_author attrs fore_name last_name affiliation =
     Element ''Author'' attrs None
       [Element ''LastName'' [] (Some last_name) [] None,
        Element ''ForeName'' [] (Some fore_name) [] None,
        Element ''AffiliationInfo'' [] None
          [Element ''Affiliation'' [] (Some affiliation) [] None] None] None"

definition ex_author_no_affiliation :: element where
  "ex_author_no_affiliation =
     Element ''Author'' [] None
       [Element ''LastName'' [] (Some ''Inc'') [] None,
        Element ''ForeName'' [] (Some ''Corp'') [] None] None"

definition ex_pub_date :: element where
  "ex_pub_date =
     Element ''PubDate'' [] None
       [Element ''Year'' [] (Some ''2023'') [] None,
        Element ''Month'' [] (Some ''Jan'') [] None] None"

definition ex_article :: "string \<Rightarrow> string \<Rightarrow> element list \<Rightarrow> element" where
  "ex_article pmid article_title authors =
     Element ''PubmedArticle'' [] None
       [Element ''MedlineCitation'' [] None
          [Element ''PMID'' [] (Some pmid) [] None,
           Element ''Article'' [] None
             [Element ''Journal'' [] None [ex_pub_date] None,
              Element ''ArticleTitle'' [] (Some article_title) [] None,
              Element ''AuthorList'' [] None authors None] None] None] None"

definition ex_article_A :: element where
  "ex_article_A =
     ex_article ''12345678'' ''A groundbreaking study on novel therapeutics.''
       [ex_author [(''CorrespondingAuthor'', ''Y'')] ''Jane'' ''Doe''
          ''PharmaCorp Inc., Boston, MA, USA. jane.doe@pharmaco.com.'']"

definition ex_article_B :: element where
  "ex_article_B =
     ex_article ''98765432'' ''An academic study.''
       [ex_author [] ''John'' ''Smith'' ''University of Oslo, Norway.'']"

definition ex_article_no_pmid :: element where
  "ex_article_no_pmid =
     Element ''PubmedArticle'' [] None
       [Element ''ArticleTitle'' [] (Some ''Untracked'') [] None,
        Element ''AuthorList'' [] None
          [ex_author [] ''Max'' ''Roe'' ''Acme Biotech Ltd, Basel''] None] None"

definition ex_article_no_title :: element where
  "ex_article_no_title =
     Element ''PubmedArticle'' [] None
       [Element ''PMID'' [] (Some ''55555555'') [] None,
        Element ''AuthorList'' [] None
          [ex_author [] ''Max'' ''Roe'' ''Acme Biotech Ltd, Basel''] None] None"

definition ex_article_no_authors :: element where
  "ex_article_no_authors =
     Element ''PubmedArticle'' [] None
       [Element ''PMID'' [] (Some ''66666666'') [] None,
        Element ''ArticleTitle'' [] (Some ''Anonymous Labs report'') [] None] None"

definition ex_article_day_only :: element where
  "ex_article_day_only =
     Element ''PubmedArticle'' [] None
       [Element ''PubDate'' [] None [Element ''Day'' [] (Some ''15'') [] None] None] None"

definition ex_article_duplicates :: element where
  "ex_article_duplicates =
     ex_article ''24682468'' ''Two sites, one company.''
       [ex_author [] ''Jane'' ''Doe'' ''PharmaCorp Inc., Boston'',
        ex_author [] ''Ann'' ''Lee'' ''Acme Biotech Ltd, Basel'',
        ex_author [] ''John'' ''Smith'' ''University of Oslo, Norway.'',
        ex_author [] ''Jane'' ''Doe'' ''PharmaCorp Inc., Boston'']"

definition ex_author_list_leading :: element where
  "ex_author_list_leading =
     Element ''AuthorList'' [] None
       [ex_author [] ''John'' ''Smith'' ''University of Oslo, Norway. john@uio.no'',
        ex_author [(''CorrespondingAuthor'', ''Y'')] ''Jane'' ''Doe''
          ''PharmaCorp Inc. (Boston) Contact: ,jane@pharmaco.com.''] None"

definition ex_result_A :: PaperResult where
  "ex_result_A =
     \<lparr>pubmed_id = ''12345678'',
      title = ''A groundbreaking study on novel therapeutics.'',
      publication_date = ''2023-Jan-N/A'',
      non_academic_authors = [''Jane Doe''],
      company_affiliations = [''PharmaCorp Inc., Boston, MA, USA. jane.doe@pharmaco.com.''],
      corresponding_author_email = Some ''jane.doe@pharmaco.com''\<rparr>"

definition ex_result_duplicates :: PaperResult where
  "ex_result_duplicates =
     \<lparr>pubmed_id = ''24682468'',
      title = ''Two sites, one company.'',
      publication_date = ''2023-Jan-N/A'',
      non_academic_authors = [''Jane Doe'', ''Ann Lee'', ''Jane Doe''],
      company_affiliations = [''PharmaCorp Inc., Boston'', ''Acme Biotech Ltd, Basel''],
      corresponding_author_email = None\<rparr>"

section \<open>Properties of the classifier\<close>

lemma startswith_iff: "startswith s p \<longleftrightarrow> (\<exists>post. s = p @ post)"
  by (induction s p rule: startswith.induct) auto

lemma str_in_iff: "str_in sub s \<longleftrightarrow> (\<exists>pre post. s = pre @ sub @ post)"
proof (induction s)
  case Nil
  then show ?case by auto
next
  case (Cons c cs)
  show ?case
  proof
    assume "str_in sub (c # cs)"
    then consider "startswith (c # cs) sub" | "str_in sub cs" by auto
    then show "\<exists>pre post. c # cs = pre @ sub @ post"
    proof cases
      case 1
      then obtain post where "c # cs = sub @ post" by (auto simp: startswith_iff)
      then have "c # cs = [] @ sub @ post" by simp
      then show ?thesis by blast
    next
      case 2
      then obtain pre post where "cs = pre @ sub @ post" using Cons.IH by blast
      then have "c # cs = (c # pre) @ sub @ post" by simp
      then show ?thesis by blast
    qed
  next
    assume "\<exists>pre post. c # cs = pre @ sub @ post"
    then obtain pre post where e: "c # cs = pre @ sub @ post" by blast
    show "str_in sub (c # cs)"
    proof (cases pre)
      case Nil
      with e have "startswith (c # cs) sub" unfolding startswith_iff by auto
      then show ?thesis by simp
    next
      case (Cons a pre')
      with e have "cs = pre' @ sub @ post" by simp
      then have "str_in sub cs" using Cons.IH by blast
      then show ?thesis by simp
    qed
  qed
qed

text \<open>
  C1. An affiliation string is classified as company-affiliated exactly when its
  lowercased text contains one of the fifteen keywords as a substring, at any position;
  a string that contains none of them, the empty string included, is classified as not
  company-affiliated.
\<close>

theorem is_company_affiliation_iff:
  "is_company_affiliation affiliation \<longleftrightarrow>
     (\<exists>keyword \<in> {''inc'', ''ltd'', ''llc'', ''corp'', ''corporation'', ''pharmaceuticals'',
                    ''therapeutics'', ''biotech'', ''biosciences'', ''diagnostics'',
                    ''labs'', ''laboratories'', ''gmbh'', ''ag'', ''s.a.''}.
        \<exists>pre post. lower affiliation = pre @ keyword @ post)"
proof (cases "affiliation = []")
  case True
  then show ?thesis by (simp add: is_company_affiliation_def lower_def)
next
  case False
  then show ?thesis
    unfolding is_company_affiliation_def Let_def COMPANY_KEYWORDS_def
    by (simp add: str_in_iff)
qed

theorem is_company_affiliation_iff_witness:
  "is_company_affiliation ''PharmaCorp Inc., Boston'' \<and>
   lower ''PharmaCorp Inc., Boston'' = ''pharmacorp '' @ ''inc'' @ ''., boston'' \<and>
   \<not> is_company_affiliation ''University of Oslo''"
proof -
  have l: "lower ''PharmaCorp Inc., Boston'' = ''pharmacorp '' @ ''inc'' @ ''., boston''"
    by code_simp
  have "is_company_affiliation ''PharmaCorp Inc., Boston''"
    unfolding is_company_affiliation_iff using l by blast
  moreover have "\<not> is_company_affiliation ''University of Oslo''" by code_simp
  ultimately show ?thesis using l by simp
qed

section \<open>Properties of the fetch step\<close>

declare chunks.simps [simp del]
declare fetch_loop.simps [simp del]

lemma chunks_Nil: "chunks n [] = []"
  by (simp add: chunks.simps)

lemma chunks_step: "0 < n \<Longrightarrow> xs \<noteq> [] \<Longrightarrow> chunks n xs = take n xs # chunks n (drop n xs)"
  by (subst chunks.simps) simp

lemma concat_chunks: "0 < n \<Longrightarrow> concat (chunks n xs) = xs"
proof (induction n xs rule: chunks.induct)
  case (1 n xs)
  show ?case
  proof (cases "xs = []")
    case True
    then show ?thesis by (simp add: chunks_Nil)
  next
    case False
    with 1 show ?thesis by (simp add: chunks_step)
  qed
qed

lemma length_chunks_elem: "b \<in> set (chunks n xs) \<Longrightarrow> 0 < length b \<and> length b \<le> n"
proof (induction n xs rule: chunks.induct)
  case (1 n xs)
  show ?case
  proof (cases "n = 0 \<or> xs = []")
    case True
    with 1(2) show ?thesis by (simp add: chunks.simps)
  next
    case False
    then have "chunks n xs = take n xs # chunks n (drop n xs)" by (simp add: chunks_step)
    with 1 False show ?thesis by auto
  qed
qed

lemma raise_for_status_success:
  "is_success r \<Longrightarrow> raise_for_status r = Inr (response_text r)"
  by (cases r) (auto simp: is_success_def raise_for_status_def response_text_def)

lemma raise_for_status_failure:
  "\<not> is_success r \<Longrightarrow> \<exists>e. raise_for_status r = Inl e"
  by (cases r) (auto simp: is_success_def raise_for_status_def)

lemma fetch_loop_success:
  "\<forall>batch \<in> set (chunks MAX_UIDS_PER_REQUEST (drop i pmids)). is_success (efetch (join '','' batch))
   \<Longrightarrow> fetch_loop efetch pmids i acc sent =
         (sent @ chunks MAX_UIDS_PER_REQUEST (drop i pmids),
          Inr (acc @ concat (map (\<lambda>batch. response_text (efetch (join '','' batch)))
                              (chunks MAX_UIDS_PER_REQUEST (drop i pmids)))))"
proof (induction efetch pmids i acc sent rule: fetch_loop.induct)
  case (1 efetch pmids i acc sent)
  show ?case
  proof (cases "i < length pmids")
    case False
    then show ?thesis by (simp add: fetch_loop.simps chunks_Nil)
  next
    case True
    let ?batch = "take MAX_UIDS_PER_REQUEST (drop i pmids)"
    have c: "chunks MAX_UIDS_PER_REQUEST (drop i pmids) =
               ?batch # chunks MAX_UIDS_PER_REQUEST (drop (i + MAX_UIDS_PER_REQUEST) pmids)"
      using True by (simp add: chunks_step MAX_UIDS_PER_REQUEST_def add.commute)
    have ok: "is_success (efetch (join '','' ?batch))" using 1(2) c by simp
    have r: "raise_for_status (efetch (join '','' ?batch)) = Inr (response_text (efetch (join '','' ?batch)))"
      using ok by (rule raise_for_status_success)
    have rest: "\<forall>batch \<in> set (chunks MAX_UIDS_PER_REQUEST (drop (i + MAX_UIDS_PER_REQUEST) pmids)).
                  is_success (efetch (join '','' batch))"
      using 1(2) c by simp
    have "fetch_loop efetch pmids i acc sent =
            fetch_loop efetch pmids (i + MAX_UIDS_PER_REQUEST)
              (acc @ response_text (efetch (join '','' ?batch))) (sent @ [?batch])"
      using True r by (subst fetch_loop.simps) (simp add: Let_def)
    also have "\<dots> = ((sent @ [?batch]) @ chunks MAX_UIDS_PER_REQUEST (drop (i + MAX_UIDS_PER_REQUEST) pmids),
          Inr ((acc @ response_text (efetch (join '','' ?batch))) @
               concat (map (\<lambda>batch. response_text (efetch (join '','' batch)))
                              (chunks MAX_UIDS_PER_REQUEST (drop (i + MAX_UIDS_PER_REQUEST) pmids)))))"
      using 1(1)[OF True refl r rest] .
    finally show ?thesis using c by simp
  qed
qed

lemma map_length_chunks_450:
  "length xs = 450 \<Longrightarrow> map length (chunks 200 xs) = [200, 200, 50]"
proof -
  assume l: "length xs = 450"
  have 1: "chunks 200 xs = take 200 xs # chunks 200 (drop 200 xs)"
    using l by (intro chunks_step) auto
  have 2: "chunks 200 (drop 200 xs) = take 200 (drop 200 xs) # chunks 200 (drop 400 xs)"
    using l chunks_step[of 200 "drop 200 xs"] by auto
  have 3: "chunks 200 (drop 400 xs) = take 200 (drop 400 xs) # chunks 200 (drop 600 xs)"
    using l chunks_step[of 200 "drop 400 xs"] by auto
  have 4: "chunks 200 (drop 600 xs) = []"
    using l by (simp add: chunks_Nil)
  show ?thesis using l by (simp add: 1 2 3 chunks_Nil)
qed

lemma fetch_loop_prefix:
  "\<exists>rest. sent @ chunks MAX_UIDS_PER_REQUEST (drop i pmids) = fst (fetch_loop efetch pmids i acc sent) @ rest"
proof (induction efetch pmids i acc sent rule: fetch_loop.induct)
  case (1 efetch pmids i acc sent)
  show ?case
  proof (cases "i < length pmids")
    case False
    then show ?thesis by (simp add: fetch_loop.simps chunks_Nil)
  next
    case True
    let ?batch = "take MAX_UIDS_PER_REQUEST (drop i pmids)"
    have c: "chunks MAX_UIDS_PER_REQUEST (drop i pmids) =
               ?batch # chunks MAX_UIDS_PER_REQUEST (drop (i + MAX_UIDS_PER_REQUEST) pmids)"
      using True by (simp add: chunks_step MAX_UIDS_PER_REQUEST_def add.commute)
    show ?thesis
    proof (cases "raise_for_status (efetch (join '','' ?batch))")
      case (Inl e)
      then have "fst (fetch_loop efetch pmids i acc sent) = sent @ [?batch]"
        using True by (subst fetch_loop.simps) (simp add: Let_def)
      then show ?thesis using c by simp
    next
      case (Inr t)
      then have "fetch_loop efetch pmids i acc sent =
            fetch_loop efetch pmids (i + MAX_UIDS_PER_REQUEST) (acc @ t) (sent @ [?batch])"
        using True by (subst fetch_loop.simps) (simp add: Let_def)
      then show ?thesis using 1(1)[OF True refl Inr] c by simp
    qed
  qed
qed

text \<open>
  C5. When the endpoint answers every chunk with a success status, the fetch step sends
  exactly the consecutive chunks of at most 200 identifiers, one request per chunk and in
  order, and returns the concatenation of the response bodies in chunk order. The chunks
  concatenate to the identifier sequence and none is empty or longer than 200; 450
  identifiers give three requests of sizes 200, 200 and 50; the empty sequence gives the
  empty string and no request.
\<close>

theorem fetch_paper_details_batches:
  assumes "\<forall>batch \<in> set (chunks 200 pmids). is_success (efetch (join '','' batch))"
  shows "fetch_paper_details efetch pmids =
           (chunks 200 pmids,
            Inr (concat (map (\<lambda>batch. response_text (efetch (join '','' batch))) (chunks 200 pmids))))
         \<and> concat (chunks 200 pmids) = pmids
         \<and> (\<forall>batch \<in> set (chunks 200 pmids). 0 < length batch \<and> length batch \<le> 200)
         \<and> (length pmids = 450 \<longrightarrow> map length (fst (fetch_paper_details efetch pmids)) = [200, 200, 50])
         \<and> fetch_paper_details efetch [] = ([], Inr [])"
proof -
  have a: "fetch_paper_details efetch pmids =
           (chunks 200 pmids,
            Inr (concat (map (\<lambda>batch. response_text (efetch (join '','' batch))) (chunks 200 pmids))))"
  proof (cases "pmids = []")
    case True
    then show ?thesis by (simp add: fetch_paper_details_def chunks_Nil)
  next
    case False
    have "\<forall>batch \<in> set (chunks MAX_UIDS_PER_REQUEST (drop 0 pmids)). is_success (efetch (join '','' batch))"
      using assms by (simp add: MAX_UIDS_PER_REQUEST_def)
    from fetch_loop_success[OF this, of "[]" "[]"] False show ?thesis
      by (simp add: fetch_paper_details_def MAX_UIDS_PER_REQUEST_def)
  qed
  have b: "concat (chunks 200 pmids) = pmids" by (simp add: concat_chunks)
  have c: "\<forall>batch \<in> set (chunks 200 pmids). 0 < length batch \<and> length batch \<le> 200"
    using length_chunks_elem by blast
  have d: "length pmids = 450 \<longrightarrow> map length (fst (fetch_paper_details efetch pmids)) = [200, 200, 50]"
    using a by (simp add: map_length_chunks_450)
  have e: "fetch_paper_details efetch [] = ([], Inr [])"
    by (simp add: fetch_paper_details_def)
  show ?thesis using a b c d e by blast
qed

theorem fetch_paper_details_batches_witness:
  "map length (fst (fetch_paper_details (\<lambda>ids. Response 200 ids) (replicate 450 ''7''))) = [200, 200, 50]
   \<and> concat (chunks 200 (replicate 450 ''7'')) = replicate 450 ''7''"
proof -
  have h: "\<forall>batch \<in> set (chunks 200 (replicate 450 ''7'')).
             is_success ((\<lambda>ids. Response 200 ids) (join '','' batch))"
    by (simp add: is_success_def)
  have l: "length (replicate 450 ''7'') = 450" by simp
  show ?thesis using fetch_paper_details_batches[OF h] l by blast
qed

section \<open>Errors of the endpoints\<close>

lemma fetch_loop_failure:
  "\<exists>batch \<in> set (chunks MAX_UIDS_PER_REQUEST (drop i pmids)). \<not> is_success (efetch (join '','' batch))
   \<Longrightarrow> \<exists>e. snd (fetch_loop efetch pmids i acc sent) = Inl e"
proof (induction efetch pmids i acc sent rule: fetch_loop.induct)
  case (1 efetch pmids i acc sent)
  show ?case
  proof (cases "i < length pmids")
    case False
    with 1(2) show ?thesis by (simp add: chunks_Nil)
  next
    case True
    let ?batch = "take MAX_UIDS_PER_REQUEST (drop i pmids)"
    have c: "chunks MAX_UIDS_PER_REQUEST (drop i pmids) =
               ?batch # chunks MAX_UIDS_PER_REQUEST (drop (i + MAX_UIDS_PER_REQUEST) pmids)"
      using True by (simp add: chunks_step MAX_UIDS_PER_REQUEST_def add.commute)
    show ?thesis
    proof (cases "raise_for_status (efetch (join '','' ?batch))")
      case (Inl e)
      then have "snd (fetch_loop efetch pmids i acc sent) = Inl e"
        using True by (subst fetch_loop.simps) (simp add: Let_def)
      then show ?thesis by blast
    next
      case (Inr t)
      then have ok: "is_success (efetch (join '','' ?batch))"
        using raise_for_status_failure[of "efetch (join '','' ?batch)"] by auto
      have rest: "\<exists>batch \<in> set (chunks MAX_UIDS_PER_REQUEST (drop (i + MAX_UIDS_PER_REQUEST) pmids)).
                    \<not> is_success (efetch (join '','' batch))"
        using 1(2) c ok by auto
      have "fetch_loop efetch pmids i acc sent =
            fetch_loop efetch pmids (i + MAX_UIDS_PER_REQUEST) (acc @ t) (sent @ [?batch])"
        using True Inr by (subst fetch_loop.simps) (simp add: Let_def)
      then show ?thesis using 1(1)[OF True refl Inr rest] by simp
    qed
  qed
qed

lemma fetch_paper_details_failure:
  assumes "batch \<in> set (chunks 200 pmids)" and "\<not> is_success (efetch (join '','' batch))"
  shows "\<exists>e. snd (fetch_paper_details efetch pmids) = Inl e"
proof -
  have ne: "pmids \<noteq> []" using assms(1) by (auto simp: chunks_Nil)
  have "\<exists>batch \<in> set (chunks MAX_UIDS_PER_REQUEST (drop 0 pmids)). \<not> is_success (efetch (join '','' batch))"
    using assms by (auto simp: MAX_UIDS_PER_REQUEST_def)
  from fetch_loop_failure[OF this] ne show ?thesis
    by (simp add: fetch_paper_details_def)
qed

lemma search_pubmed_status_error:
  "esearch query max_ret = Response st d \<Longrightarrow> \<not> (200 \<le> st \<and> st < 300)
   \<Longrightarrow> search_pubmed esearch query max_ret = Inl (HTTPStatusError st)"
  by (auto simp: search_pubmed_def raise_for_status_def)

lemma find_papers_never_raises:
  "\<exists>results. find_papers esearch efetch fromstring query = Inr results"
  by (simp add: find_papers_def split: sum.splits)

lemma find_papers_swallows:
  "find_papers_try esearch efetch fromstring query = Inl e
   \<Longrightarrow> find_papers esearch efetch fromstring query = Inr []"
  by (simp add: find_papers_def)

lemma main_empty:
  "find_papers esearch efetch fromstring query = Inr []
   \<Longrightarrow> main esearch efetch fromstring write_rows query = 0"
  by (simp add: main_def)

text \<open>
  The search endpoint answers 503: the search step raises \<open>HTTPStatusError\<close>, and the
  orchestrator still returns a result list, the empty one; the command exits with code 0.
\<close>

theorem remote_error_propagates_counterexample:
  "search_pubmed (\<lambda>q n. Response 503 None) ''crispr'' 100 = Inl (HTTPStatusError 503)
   \<and> find_papers (\<lambda>q n. Response 503 None) (\<lambda>ids. Response 200 []) (\<lambda>s. None) ''crispr''
       \<noteq> Inl (HTTPStatusError 503)
   \<and> find_papers (\<lambda>q n. Response 503 None) (\<lambda>ids. Response 200 []) (\<lambda>s. None) ''crispr'' = Inr []
   \<and> main (\<lambda>q n. Response 503 None) (\<lambda>ids. Response 200 []) (\<lambda>s. None) (\<lambda>rows. Inr ()) ''crispr'' = 0"
  by (simp add: main_def find_papers_def find_papers_try_def search_pubmed_def raise_for_status_def)

text \<open>
  C2, as the code has it. A non-success status from the search endpoint, or from the fetch
  endpoint on one of the chunks, raises an error inside the orchestrator's \<open>try\<close> block;
  the orchestrator catches it and returns the empty result list, and the command then
  exits with code 0. The error does not reach the caller of the orchestrator.
\<close>

theorem remote_error_swallowed:
  assumes "(\<exists>st d. esearch query 100 = Response st d \<and> \<not> (200 \<le> st \<and> st < 300))
           \<or> (\<exists>pmids. search_pubmed esearch query 100 = Inr pmids \<and>
                (\<exists>batch \<in> set (chunks 200 pmids). \<exists>st t.
                   efetch (join '','' batch) = Response st t \<and> \<not> (200 \<le> st \<and> st < 300)))"
  shows "(\<exists>e. find_papers_try esearch efetch fromstring query = Inl e)
         \<and> find_papers esearch efetch fromstring query = Inr []
         \<and> main esearch efetch fromstring write_rows query = 0"
proof -
  have t: "\<exists>e. find_papers_try esearch efetch fromstring query = Inl e"
    using assms
  proof
    assume "\<exists>st d. esearch query 100 = Response st d \<and> \<not> (200 \<le> st \<and> st < 300)"
    then obtain st d where "esearch query 100 = Response st d" "\<not> (200 \<le> st \<and> st < 300)"
      by blast
    then have "search_pubmed esearch query 100 = Inl (HTTPStatusError st)"
      by (rule search_pubmed_status_error)
    then show ?thesis by (simp add: find_papers_try_def)
  next
    assume "\<exists>pmids. search_pubmed esearch query 100 = Inr pmids \<and>
                (\<exists>batch \<in> set (chunks 200 pmids). \<exists>st t.
                   efetch (join '','' batch) = Response st t \<and> \<not> (200 \<le> st \<and> st < 300))"
    then obtain pmids batch st t where s: "search_pubmed esearch query 100 = Inr pmids"
      and b: "batch \<in> set (chunks 200 pmids)"
      and r: "efetch (join '','' batch) = Response st t" "\<not> (200 \<le> st \<and> st < 300)"
      by blast
    have ne: "pmids \<noteq> []" using b by (auto simp: chunks_Nil)
    have "\<not> is_success (efetch (join '','' batch))" using r by (simp add: is_success_def)
    from fetch_paper_details_failure[of batch pmids efetch, OF b this]
    obtain e where "snd (fetch_paper_details efetch pmids) = Inl e" by blast
    then show ?thesis using s ne by (simp add: find_papers_try_def)
  qed
  then obtain e where "find_papers_try esearch efetch fromstring query = Inl e" by blast
  then have f: "find_papers esearch efetch fromstring query = Inr []"
    by (rule find_papers_swallows)
  then have "main esearch efetch fromstring write_rows query = 0"
    by (rule main_empty)
  with t f show ?thesis by blast
qed

theorem remote_error_swallowed_witness:
  "find_papers (\<lambda>q n. Response 503 None) (\<lambda>ids. Response 200 []) (\<lambda>s. None) ''crispr'' = Inr []
   \<and> find_papers (\<lambda>q n. Response 200 (Some [(''esearchresult'', [(''idlist'', [''1'', ''2''])])]))
        (\<lambda>ids. Response 404 []) (\<lambda>s. None) ''crispr'' = Inr []"
proof -
  have a: "(\<exists>st d. (\<lambda>q n. Response 503 None) ''crispr'' (100::int) = (Response st d :: search_data option http_result)
              \<and> \<not> (200 \<le> st \<and> st < 300))"
    by simp
  have s: "search_pubmed (\<lambda>q n. Response 200 (Some [(''esearchresult'', [(''idlist'', [''1'', ''2''])])]))
             ''crispr'' 100 = Inr [''1'', ''2'']"
    by (simp add: search_pubmed_def raise_for_status_def)
  have c: "[''1'', ''2''] \<in> set (chunks 200 [''1'', ''2''])"
    by (simp add: chunks_step chunks_Nil)
  have b: "\<exists>pmids. search_pubmed (\<lambda>q n. Response 200 (Some [(''esearchresult'', [(''idlist'', [''1'', ''2''])])]))
             ''crispr'' 100 = Inr pmids \<and>
             (\<exists>batch \<in> set (chunks 200 pmids). \<exists>st t.
                (\<lambda>ids. Response 404 []) (join '','' batch) = (Response st t :: string http_result)
                   \<and> \<not> (200 \<le> st \<and> st < 300))"
    using s c by auto
  show ?thesis
    using remote_error_swallowed[of "\<lambda>q n. Response 503 None" "''crispr''", OF disjI1, OF a]
          remote_error_swallowed[OF disjI2, OF b]
    by blast
qed

section \<open>Properties of the CSV row\<close>

lemma join_concat:
  "join sep xs = (case xs of [] \<Rightarrow> [] | x # ys \<Rightarrow> x @ concat (map (\<lambda>y. sep @ y) ys))"
  by (induction sep xs rule: join.induct) auto

text \<open>
  C9. The CSV row of a result has six fields, as many as the fixed header: the identifier,
  the title, the date, the two list fields joined with \<open>"; "\<close>, and the email, which
  is \<open>"N/A"\<close> when the result has none.
\<close>

theorem to_csv_row_fields:
  "length (to_csv_row p) = 6
   \<and> length get_csv_header = 6
   \<and> get_csv_header = [''PubmedID'', ''Title'', ''Publication Date'', ''Non-academic Author(s)'',
                        ''Company Affiliation(s)'', ''Corresponding Author Email'']
   \<and> to_csv_row p ! 0 = pubmed_id p
   \<and> to_csv_row p ! 1 = title p
   \<and> to_csv_row p ! 2 = publication_date p
   \<and> to_csv_row p ! 3 = (case non_academic_authors p of
                            [] \<Rightarrow> [] | x # ys \<Rightarrow> x @ concat (map (\<lambda>y. ''; '' @ y) ys))
   \<and> to_csv_row p ! 4 = (case company_affiliations p of
                            [] \<Rightarrow> [] | x # ys \<Rightarrow> x @ concat (map (\<lambda>y. ''; '' @ y) ys))
   \<and> (corresponding_author_email p = None \<longrightarrow> to_csv_row p ! 5 = ''N/A'')
   \<and> (\<forall>e. corresponding_author_email p = Some e \<and> e \<noteq> [] \<longrightarrow> to_csv_row p ! 5 = e)"
  unfolding to_csv_row_def get_csv_header_def
  by (simp add: join_concat[symmetric])

theorem to_csv_row_fields_witness:
  "to_csv_row \<lparr>pubmed_id = ''12345678'', title = ''A study'', publication_date = ''2023-Jan-N/A'',
               non_academic_authors = [''Jane Doe'', ''Max Roe''],
               company_affiliations = [''PharmaCorp Inc.''],
               corresponding_author_email = None\<rparr> ! 5 = ''N/A''
   \<and> to_csv_row \<lparr>pubmed_id = ''12345678'', title = ''A study'', publication_date = ''2023-Jan-N/A'',
               non_academic_authors = [''Jane Doe'', ''Max Roe''],
               company_affiliations = [''PharmaCorp Inc.''],
               corresponding_author_email = None\<rparr> ! 3 = ''Jane Doe; Max Roe''
   \<and> to_csv_row \<lparr>pubmed_id = ''12345678'', title = ''A study'', publication_date = ''2023-Jan-N/A'',
               non_academic_authors = [''Jane Doe'', ''Max Roe''],
               company_affiliations = [''PharmaCorp Inc.''],
               corresponding_author_email = Some ''jane.doe@pharmaco.com''\<rparr> ! 5 = ''jane.doe@pharmaco.com''"
  using to_csv_row_fields[of "\<lparr>pubmed_id = ''12345678'', title = ''A study'', publication_date = ''2023-Jan-N/A'',
               non_academic_authors = [''Jane Doe'', ''Max Roe''],
               company_affiliations = [''PharmaCorp Inc.''],
               corresponding_author_email = None\<rparr>"]
        to_csv_row_fields[of "\<lparr>pubmed_id = ''12345678'', title = ''A study'', publication_date = ''2023-Jan-N/A'',
               non_academic_authors = [''Jane Doe'', ''Max Roe''],
               company_affiliations = [''PharmaCorp Inc.''],
               corresponding_author_email = Some ''jane.doe@pharmaco.com''\<rparr>"]
  by simp

section \<open>Properties of the publication date\<close>

lemma findtext_child_absent:
  "\<forall>c \<in> set (children d). tag c \<noteq> name \<Longrightarrow> findtext_child name dflt d = dflt"
proof -
  assume "\<forall>c \<in> set (children d). tag c \<noteq> name"
  then have "find (\<lambda>c. tag c = name) (children d) = None" by (simp add: find_None_iff)
  then show ?thesis by (simp add: findtext_child_def)
qed

text \<open>
  An article with no \<open>PubDate\<close> node: the date string is \<open>"N/A"\<close>, which has no \<open>-\<close> in it
  and is not \<open>"N/A-N/A-N/A"\<close>.
\<close>

theorem get_publication_date_form_counterexample:
  "find_desc ''PubDate'' ex_article_no_authors = None
   \<and> get_publication_date ex_article_no_authors = ''N/A''
   \<and> get_publication_date ex_article_no_authors \<noteq> ''N/A-N/A-N/A''
   \<and> CHR ''-'' \<notin> set (get_publication_date ex_article_no_authors)"
  by (simp add: get_publication_date_def ex_article_no_authors_def find_desc_def)

text \<open>
  C6, as the code has it. When the article has a \<open>PubDate\<close> node below it, the date string is
  year, month and day of the first such node in document order, joined by \<open>-\<close>, and each
  of the three is \<open>"N/A"\<close> when the date node has no child of that name. When the article
  has no \<open>PubDate\<close> node, the date string is \<open>"N/A"\<close>.
\<close>

theorem get_publication_date_cases:
  "(find_desc ''PubDate'' article_node = None \<longrightarrow> get_publication_date article_node = ''N/A'')
   \<and> (\<forall>date_node. find_desc ''PubDate'' article_node = Some date_node \<longrightarrow>
         get_publication_date article_node =
           findtext_child ''Year'' ''N/A'' date_node @ ''-'' @
           findtext_child ''Month'' ''N/A'' date_node @ ''-'' @
           findtext_child ''Day'' ''N/A'' date_node
         \<and> ((\<forall>c \<in> set (children date_node). tag c \<noteq> ''Year'')
              \<longrightarrow> findtext_child ''Year'' ''N/A'' date_node = ''N/A'')
         \<and> ((\<forall>c \<in> set (children date_node). tag c \<noteq> ''Month'')
              \<longrightarrow> findtext_child ''Month'' ''N/A'' date_node = ''N/A'')
         \<and> ((\<forall>c \<in> set (children date_node). tag c \<noteq> ''Day'')
              \<longrightarrow> findtext_child ''Day'' ''N/A'' date_node = ''N/A''))"
  using findtext_child_absent by (simp add: get_publication_date_def)

theorem get_publication_date_cases_witness:
  "get_publication_date ex_article_A = ''2023-Jan-N/A''
   \<and> get_publication_date ex_article_day_only = ''N/A-N/A-15''
   \<and> find_desc ''PubDate'' ex_article_no_title = None
   \<and> get_publication_date ex_article_no_title = ''N/A''"
proof -
  let ?e = "Element ''PubDate'' [] None [Element ''Day'' [] (Some ''15'') [] None] None"
  have f1: "find_desc ''PubDate'' ex_article_A = Some ex_pub_date"
    by (simp add: ex_article_A_def ex_article_def find_desc_def ex_pub_date_def ex_author_def)
  have f2: "find_desc ''PubDate'' ex_article_day_only = Some ?e"
    by (simp add: ex_article_day_only_def find_desc_def)
  have f3: "find_desc ''PubDate'' ex_article_no_title = None"
    by (simp add: ex_article_no_title_def find_desc_def ex_author_def)
  have y: "findtext_child ''Year'' ''N/A'' ex_pub_date = ''2023''"
    and m: "findtext_child ''Month'' ''N/A'' ex_pub_date = ''Jan''"
    and d: "\<forall>c \<in> set (children ex_pub_date). tag c \<noteq> ''Day''"
    by (simp_all add: findtext_child_def text_or_empty_def ex_pub_date_def)
  have y2: "\<forall>c \<in> set (children ?e). tag c \<noteq> ''Year''"
    and m2: "\<forall>c \<in> set (children ?e). tag c \<noteq> ''Month''"
    and d2: "findtext_child ''Day'' ''N/A'' ?e = ''15''"
    by (simp_all add: findtext_child_def text_or_empty_def)
  have a: "get_publication_date ex_article_A = ''2023-Jan-N/A''"
    using get_publication_date_cases[of ex_article_A] f1 y m d by simp
  have b: "get_publication_date ex_article_day_only = ''N/A-N/A-15''"
    using get_publication_date_cases[of ex_article_day_only] f2 y2 m2 d2 by simp
  have c: "get_publication_date ex_article_no_title = ''N/A''"
    using get_publication_date_cases[of ex_article_no_title] f3 by simp
  show ?thesis using a b c f3 by simp
qed

section \<open>Properties of the parse-and-filter step\<close>

lemma author_loop_append: "author_loop (xs @ ys) st = author_loop ys (author_loop xs st)"
  by (induction xs arbitrary: st) auto

lemma article_loop_append: "article_loop (xs @ ys) rs = article_loop ys (article_loop xs rs)"
  by (induction xs arbitrary: rs) auto

lemma article_step_append: "article_step a rs = rs @ article_step a []"
  by (simp add: article_step_def Let_def split: option.splits)

lemma article_loop_concat: "article_loop as rs = rs @ concat (map (\<lambda>a. article_step a []) as)"
proof (induction as arbitrary: rs)
  case Nil
  then show ?case by simp
next
  case (Cons a as)
  have "article_loop (a # as) rs = article_step a rs @ concat (map (\<lambda>a. article_step a []) as)"
    by (simp add: Cons.IH)
  then show ?case using article_step_append[of a rs] by simp
qed

text \<open>
  C10. An author node with no \<open>Affiliation\<close> node below it is not classified as
  company-affiliated and leaves both lists as they are: the loop over the authors gives the
  same lists as it gives without that author.
\<close>

theorem author_without_affiliation_skipped:
  assumes "find_desc ''Affiliation'' author_node = None"
  shows "\<not> is_company_affiliation (author_affiliation_text author_node)
         \<and> author_step author_node st = st
         \<and> author_loop (before @ author_node # after) st = author_loop (before @ after) st"
proof -
  have a: "\<not> is_company_affiliation (author_affiliation_text author_node)"
    using assms by (simp add: author_affiliation_text_def is_company_affiliation_def)
  have s: "\<And>st. author_step author_node st = st"
    using assms by (simp add: author_step_def)
  have "author_loop (before @ author_node # after) st
          = author_loop after (author_step author_node (author_loop before st))"
    by (simp add: author_loop_append)
  also have "\<dots> = author_loop (before @ after) st"
    by (simp add: s author_loop_append)
  finally show ?thesis using a s by simp
qed

theorem author_without_affiliation_skipped_witness:
  "find_desc ''Affiliation'' ex_author_no_affiliation = None
   \<and> author_step ex_author_no_affiliation ([''Jane Doe''], [''PharmaCorp Inc.''])
       = ([''Jane Doe''], [''PharmaCorp Inc.''])
   \<and> author_loop [ex_author [] ''Max'' ''Roe'' ''Acme Biotech Ltd, Basel'', ex_author_no_affiliation] ([], [])
       = author_loop [ex_author [] ''Max'' ''Roe'' ''Acme Biotech Ltd, Basel''] ([], [])"
proof -
  have h: "find_desc ''Affiliation'' ex_author_no_affiliation = None"
    by (simp add: ex_author_no_affiliation_def find_desc_def)
  show ?thesis
    using h author_without_affiliation_skipped[OF h, of "([''Jane Doe''], [''PharmaCorp Inc.''])" "[]" "[]"]
          author_without_affiliation_skipped[OF h, of "([], [])"
            "[ex_author [] ''Max'' ''Roe'' ''Acme Biotech Ltd, Basel'']" "[]"]
    by simp
qed

text \<open>
  C3. An article node that lacks a \<open>PMID\<close> node, an \<open>ArticleTitle\<close> node or an
  \<open>AuthorList\<close> node below it adds no record, and the loop goes on: its result is the
  records it had, followed by what each of the other articles contributes, in document
  order. This is also what the loop gives without that article, and what the whole step
  returns on a document that contains it.
\<close>

theorem incomplete_article_skipped:
  assumes "find_desc ''PMID'' article_node = None
           \<or> find_desc ''ArticleTitle'' article_node = None
           \<or> find_desc ''AuthorList'' article_node = None"
  shows "article_step article_node results = results
         \<and> article_loop (before @ article_node # after) results
             = results @ concat (map (\<lambda>a. article_step a []) (before @ after))
         \<and> article_loop (before @ article_node # after) results = article_loop (before @ after) results
         \<and> (py_strip xml_data \<noteq> []
              \<and> fromstring_str fromstring (clean_and_wrap xml_data) = Inr (Some root)
              \<and> findall_desc ''PubmedArticle'' root = before @ article_node # after
            \<longrightarrow> parse_and_filter_papers fromstring xml_data
                  = Inr (concat (map (\<lambda>a. article_step a []) (before @ after))))"
proof -
  have s: "\<And>rs. article_step article_node rs = rs"
    using assms by (auto simp: article_step_def split: option.splits)
  have c: "\<And>rs. article_loop (before @ article_node # after) rs
                 = rs @ concat (map (\<lambda>a. article_step a []) (before @ after))"
    using s[of "[]"] by (simp add: article_loop_concat)
  have l: "\<And>rs. article_loop (before @ article_node # after) rs = article_loop (before @ after) rs"
    using s[of "[]"] by (simp add: article_loop_concat)
  have p: "py_strip xml_data \<noteq> []
              \<and> fromstring_str fromstring (clean_and_wrap xml_data) = Inr (Some root)
              \<and> findall_desc ''PubmedArticle'' root = before @ article_node # after
            \<longrightarrow> parse_and_filter_papers fromstring xml_data
                  = Inr (concat (map (\<lambda>a. article_step a []) (before @ after)))"
    by (simp add: parse_and_filter_papers_def c)
  show ?thesis using s c l p by simp
qed

theorem incomplete_article_skipped_witness:
  "find_desc ''PMID'' ex_article_no_pmid = None
   \<and> find_desc ''ArticleTitle'' ex_article_no_title = None
   \<and> find_desc ''AuthorList'' ex_article_no_authors = None
   \<and> article_loop [ex_article_no_pmid, ex_article_A] [] = [ex_result_A]
   \<and> article_loop [ex_article_A, ex_article_no_title, ex_article_duplicates] []
       = [ex_result_A, ex_result_duplicates]
   \<and> parse_and_filter_papers
        (\<lambda>s. Some (Element ''root'' [] None [ex_article_no_authors, ex_article_A] None))
        (py_str ''<a/>'')
       = Inr [ex_result_A]"
proof -
  have h1: "find_desc ''PMID'' ex_article_no_pmid = None"
    by (simp add: ex_article_no_pmid_def find_desc_def ex_author_def)
  have h2: "find_desc ''ArticleTitle'' ex_article_no_title = None"
    by (simp add: ex_article_no_title_def find_desc_def ex_author_def)
  have h3: "find_desc ''AuthorList'' ex_article_no_authors = None"
    by (simp add: ex_article_no_authors_def find_desc_def)
  have rA: "article_step ex_article_A [] = [ex_result_A]" by code_simp
  have rD: "article_step ex_article_duplicates [] = [ex_result_duplicates]" by code_simp
  have s: "py_strip (py_str ''<a/>'') \<noteq> []" by code_simp
  have w: "fromstring_str
             (\<lambda>s. Some (Element ''root'' [] None [ex_article_no_authors, ex_article_A] None))
             (clean_and_wrap (py_str ''<a/>''))
           = Inr (Some (Element ''root'' [] None [ex_article_no_authors, ex_article_A] None))"
    by code_simp
  have f: "findall_desc ''PubmedArticle'' (Element ''root'' [] None [ex_article_no_authors, ex_article_A] None)
             = [] @ ex_article_no_authors # [ex_article_A]"
    by code_simp
  have a: "article_loop [ex_article_no_pmid, ex_article_A] [] = [ex_result_A]"
    using incomplete_article_skipped[OF disjI1, OF h1, of "[]" "[]" "[ex_article_A]"] rA by simp
  have b: "article_loop [ex_article_A, ex_article_no_title, ex_article_duplicates] []
             = [ex_result_A, ex_result_duplicates]"
    using incomplete_article_skipped[OF disjI2, OF disjI1, OF h2, of "[]" "[ex_article_A]"
            "[ex_article_duplicates]"] rA rD
    by simp
  have c: "parse_and_filter_papers
        (\<lambda>s. Some (Element ''root'' [] None [ex_article_no_authors, ex_article_A] None))
        (py_str ''<a/>'')
       = Inr [ex_result_A]"
    using incomplete_article_skipped[OF disjI2, OF disjI2, OF h3,
            of _ "[]" "[ex_article_A]" "py_str ''<a/>''"
               "\<lambda>s. Some (Element ''root'' [] None [ex_article_no_authors, ex_article_A] None)"
               "Element ''root'' [] None [ex_article_no_authors, ex_article_A] None"] s w f rA
    by simp
  show ?thesis using h1 h2 h3 a b c by simp
qed

lemma filter_first_seen: "filter Q (first_seen xs) = first_seen (filter Q xs)"
proof (induction xs)
  case Nil
  then show ?case by simp
next
  case (Cons x xs)
  show ?case
  proof (cases "Q x")
    case True
    have "filter Q (first_seen (x # xs)) = x # filter (\<lambda>y. y \<noteq> x) (filter Q (first_seen xs))"
      using True by (simp add: conj_commute)
    then show ?thesis using True Cons.IH by simp
  next
    case False
    have "filter Q (first_seen (x # xs)) = filter (\<lambda>y. Q y \<and> y \<noteq> x) (first_seen xs)"
      using False by (simp add: conj_commute)
    also have "\<dots> = filter Q (first_seen xs)"
      using False by (intro filter_cong) auto
    finally show ?thesis using False Cons.IH by simp
  qed
qed

lemma set_first_seen: "set (first_seen xs) = set xs"
  by (induction xs) auto

lemma distinct_first_seen: "distinct (first_seen xs)"
  by (induction xs) (auto simp: set_first_seen)

lemma author_step_company:
  "company_author a \<Longrightarrow>
   author_step a (na, ca) =
     (if display_name a \<noteq> [] then na @ [display_name a] else na,
      if author_affiliation_text a \<in> set ca then ca else ca @ [author_affiliation_text a])"
  by (auto simp: company_author_def author_affiliation_text_def author_step_def display_name_def
                 is_company_affiliation_def Let_def split: option.splits)

lemma author_step_other: "\<not> company_author a \<Longrightarrow> author_step a st = st"
  by (auto simp: company_author_def author_affiliation_text_def author_step_def Let_def
           split: option.splits)

lemma author_loop_fst:
  "fst (author_loop as (na, ca)) =
     na @ filter (\<lambda>n. n \<noteq> []) (map display_name (filter company_author as))"
proof (induction as arbitrary: na ca)
  case Nil
  then show ?case by simp
next
  case (Cons a as)
  show ?case
  proof (cases "company_author a")
    case True
    then show ?thesis by (simp add: author_step_company Cons.IH)
  next
    case False
    then show ?thesis by (simp add: author_step_other Cons.IH)
  qed
qed

lemma author_loop_snd:
  "snd (author_loop as (na, ca)) =
     ca @ first_seen (filter (\<lambda>m. m \<notin> set ca) (map author_affiliation_text (filter company_author as)))"
proof (induction as arbitrary: na ca)
  case Nil
  then show ?case by simp
next
  case (Cons a as)
  let ?m = "author_affiliation_text a"
  let ?rest = "map author_affiliation_text (filter company_author as)"
  show ?case
  proof (cases "company_author a")
    case False
    then show ?thesis by (simp add: author_step_other Cons.IH)
  next
    case True
    show ?thesis
    proof (cases "?m \<in> set ca")
      case True
      with \<open>company_author a\<close> show ?thesis by (simp add: author_step_company Cons.IH)
    next
      case False
      have "filter (\<lambda>y. y \<noteq> ?m) (first_seen (filter (\<lambda>m. m \<notin> set ca) ?rest))
              = first_seen (filter (\<lambda>y. y \<noteq> ?m) (filter (\<lambda>m. m \<notin> set ca) ?rest))"
        by (rule filter_first_seen)
      also have "filter (\<lambda>y. y \<noteq> ?m) (filter (\<lambda>m. m \<notin> set ca) ?rest)
                   = filter (\<lambda>m. m \<notin> set (ca @ [?m])) ?rest"
        by (auto intro: filter_cong)
      finally have e: "filter (\<lambda>y. y \<noteq> ?m) (first_seen (filter (\<lambda>m. m \<notin> set ca) ?rest))
              = first_seen (filter (\<lambda>m. m \<notin> set (ca @ [?m])) ?rest)" .
      have "snd (author_loop (a # as) (na, ca)) =
              (ca @ [?m]) @ first_seen (filter (\<lambda>m. m \<notin> set (ca @ [?m])) ?rest)"
        using True False by (simp only: author_loop.simps author_step_company if_False Cons.IH)
      also have "\<dots> = ca @ first_seen (filter (\<lambda>m. m \<notin> set ca) (?m # ?rest))"
        using False e by simp
      finally show ?thesis using True by simp
    qed
  qed
qed

lemma author_loop_result:
  "author_loop (findall_child ''Author'' al) ([], []) =
     (filter (\<lambda>n. n \<noteq> []) (map display_name (filter company_author (findall_child ''Author'' al))),
      first_seen (matched_affiliations al))"
  using author_loop_fst[of "findall_child ''Author'' al" "[]" "[]"]
        author_loop_snd[of "findall_child ''Author'' al" "[]" "[]"]
  by (simp add: matched_affiliations_def prod_eq_iff)

lemma article_step_record:
  assumes "p \<in> set (article_step a [])"
  shows "\<exists>al. find_desc ''AuthorList'' a = Some al
          \<and> non_academic_authors p = fst (author_loop (findall_child ''Author'' al) ([], []))
          \<and> company_affiliations p = snd (author_loop (findall_child ''Author'' al) ([], []))"
proof (cases "find_desc ''AuthorList'' a")
  case None
  then have "article_step a [] = []"
    by (simp add: article_step_def split: option.splits)
  with assms show ?thesis by simp
next
  case (Some al)
  show ?thesis
  proof (cases "find_desc ''PMID'' a")
    case None
    then have "article_step a [] = []" by (simp add: article_step_def)
    with assms show ?thesis by simp
  next
    case pm: (Some paper_id_node)
    show ?thesis
    proof (cases "find_desc ''ArticleTitle'' a")
      case None
      then have "article_step a [] = []" by (simp add: article_step_def pm)
      with assms show ?thesis by simp
    next
      case ti: (Some title_node)
      show ?thesis
        using assms Some pm ti
        by (simp add: article_step_def Let_def split: if_splits)
    qed
  qed
qed

text \<open>
  C8. Every record the step produces comes from an article with an author list, and its
  \<open>company_affiliations\<close> are the affiliation texts of the company-classified authors of
  that list, each text once, in the order of first occurrence; its
  \<open>non_academic_authors\<close> are the non-empty display names of those authors, one entry per
  author, repeated names kept.
\<close>

theorem company_affiliations_first_seen:
  assumes "p \<in> set (article_loop articles [])"
  shows "\<exists>article \<in> set articles. \<exists>author_list_node.
           find_desc ''AuthorList'' article = Some author_list_node
           \<and> company_affiliations p = first_seen (matched_affiliations author_list_node)
           \<and> distinct (company_affiliations p)
           \<and> set (company_affiliations p) = set (matched_affiliations author_list_node)
           \<and> non_academic_authors p =
               filter (\<lambda>n. n \<noteq> [])
                 (map display_name (filter company_author (findall_child ''Author'' author_list_node)))"
proof -
  from assms obtain a where a: "a \<in> set articles" and p: "p \<in> set (article_step a [])"
    by (auto simp: article_loop_concat)
  from article_step_record[OF p] obtain al where al: "find_desc ''AuthorList'' a = Some al"
    and n: "non_academic_authors p = fst (author_loop (findall_child ''Author'' al) ([], []))"
    and c: "company_affiliations p = snd (author_loop (findall_child ''Author'' al) ([], []))"
    by blast
  have c': "company_affiliations p = first_seen (matched_affiliations al)"
    using c by (simp add: author_loop_result)
  have n': "non_academic_authors p =
               filter (\<lambda>n. n \<noteq> []) (map display_name (filter company_author (findall_child ''Author'' al)))"
    using n by (simp add: author_loop_result)
  show ?thesis using a al c' n' by (auto simp: distinct_first_seen set_first_seen)
qed

theorem company_affiliations_first_seen_witness:
  "\<lparr>pubmed_id = ''24682468'', title = ''Two sites, one company.'',
     publication_date = ''2023-Jan-N/A'',
     non_academic_authors = [''Jane Doe'', ''Ann Lee'', ''Jane Doe''],
     company_affiliations = [''PharmaCorp Inc., Boston'', ''Acme Biotech Ltd, Basel''],
     corresponding_author_email = None\<rparr> \<in> set (article_loop [ex_article_duplicates] [])
   \<and> distinct [''PharmaCorp Inc., Boston'', ''Acme Biotech Ltd, Basel'']
   \<and> \<not> distinct [''Jane Doe'', ''Ann Lee'', ''Jane Doe'']"
proof -
  let ?p = "\<lparr>pubmed_id = ''24682468'', title = ''Two sites, one company.'',
     publication_date = ''2023-Jan-N/A'',
     non_academic_authors = [''Jane Doe'', ''Ann Lee'', ''Jane Doe''],
     company_affiliations = [''PharmaCorp Inc., Boston'', ''Acme Biotech Ltd, Basel''],
     corresponding_author_email = None\<rparr>"
  have e: "article_loop [ex_article_duplicates] [] = [?p]" by code_simp
  then have mem: "?p \<in> set (article_loop [ex_article_duplicates] [])" by simp
  from company_affiliations_first_seen[OF mem]
  have "distinct (company_affiliations ?p)" by blast
  then have d: "distinct [''PharmaCorp Inc., Boston'', ''Acme Biotech Ltd, Basel'']" by simp
  have n: "\<not> distinct [''Jane Doe'', ''Ann Lee'', ''Jane Doe'']" by simp
  show ?thesis using mem d n by blast
qed

text \<open>
  The cleaning step on a small document with two prologs and a doctype declaration.
\<close>

lemma clean_and_wrap_example:
  "clean_and_wrap (py_str (''<?XML v?>'' @ [CHR 0x0A] @ ''<!doctype a><b/>'' @ [CHR 0x0A] @ ''<?xml?><b/> ''))
     = py_str (''<root><b/>'' @ [CHR 0x0A] @ ''<b/></root>'')"
  by code_simp




section \<open>Properties of the corresponding-author email\<close>

lemma str_in_char: "str_in [c] s \<longleftrightarrow> c \<in> set s"
proof -
  have "str_in [c] s \<longleftrightarrow> (\<exists>pre post. s = pre @ c # post)" by (simp add: str_in_iff)
  then show ?thesis by (simp add: in_set_conv_decomp)
qed

lemma str_in_nonempty: "str_in sub s \<Longrightarrow> sub \<noteq> [] \<Longrightarrow> s \<noteq> []"
  by (cases s) auto

lemma email_word_loop_find:
  "email_word_loop ws = map_option (strip_chars ''.;,'') (find (str_in ''@'') ws)"
  by (induction ws) auto

lemma split_acc_covers:
  "\<not> isspace c \<Longrightarrow> c \<in> set cur \<or> c \<in> set s \<Longrightarrow> \<exists>w \<in> set (split_acc cur s). c \<in> set w"
proof (induction s arbitrary: cur)
  case Nil
  then show ?case by auto
next
  case (Cons x xs)
  show ?case
  proof (cases "isspace x")
    case False
    have "c \<in> set (cur @ [x]) \<or> c \<in> set xs" using Cons.prems(2) by auto
    from Cons.IH[OF Cons.prems(1) this] False show ?thesis by simp
  next
    case True
    then have nx: "c \<noteq> x" using Cons.prems(1) by auto
    show ?thesis
    proof (cases "c \<in> set cur")
      case True
      then have "cur \<noteq> []" by auto
      with True \<open>isspace x\<close> show ?thesis by simp
    next
      case False
      then have "c \<in> set [] \<or> c \<in> set xs" using Cons.prems(2) nx by auto
      from Cons.IH[OF Cons.prems(1) this] \<open>isspace x\<close> show ?thesis by auto
    qed
  qed
qed

lemma email_token_exists:
  assumes "str_in ''@'' (author_affiliation_text a)"
  shows "find (str_in ''@'') (rev (email_tokens a)) \<noteq> None"
proof -
  let ?t = "replace_char (CHR '')'') (CHR '' '')
              (replace_char (CHR ''('') (CHR '' '') (author_affiliation_text a))"
  have "CHR ''@'' \<in> set (author_affiliation_text a)" using assms by (simp add: str_in_char)
  then have "CHR ''@'' \<in> set ?t" by (force simp: replace_char_def)
  moreover have "\<not> isspace (CHR ''@'')" by (simp add: isspace_def)
  ultimately obtain w where "w \<in> set (split_acc [] ?t)" "CHR ''@'' \<in> set w"
    using split_acc_covers[of "CHR ''@''" "[]" ?t] by blast
  then have "\<exists>w \<in> set (rev (email_tokens a)). str_in ''@'' w"
    by (auto simp: email_tokens_def split_def str_in_char)
  then show ?thesis by (auto simp: find_None_iff)
qed

lemma email_author_loop_eq:
  "email_author_loop authors =
     (case find (\<lambda>a. corresponding a \<and> str_in ''@'' (author_affiliation_text a)) authors of
        None \<Rightarrow> None
      | Some a \<Rightarrow> map_option (strip_chars ''.;,'') (find (str_in ''@'') (rev (email_tokens a))))"
proof (induction authors)
  case Nil
  then show ?case by simp
next
  case (Cons a rest)
  let ?t = "author_affiliation_text a"
  show ?case
  proof (cases "corresponding a \<and> str_in ''@'' ?t")
    case True
    then obtain w where w: "find (str_in ''@'') (rev (email_tokens a)) = Some w"
      using email_token_exists[of a] by auto
    have "email_word_loop (rev (email_tokens a)) = Some (strip_chars ''.;,'' w)"
      by (simp add: email_word_loop_find w)
    moreover have "?t \<noteq> []" using True str_in_nonempty[of "''@''" ?t] by simp
    ultimately have "email_author_loop (a # rest) = Some (strip_chars ''.;,'' w)"
      using True by (simp add: corresponding_def email_tokens_def Let_def)
    then show ?thesis using True w by simp
  next
    case False
    then have e: "email_author_loop (a # rest) = email_author_loop rest"
      by (auto simp: corresponding_def Let_def)
    have f: "find (\<lambda>a. corresponding a \<and> str_in ''@'' (author_affiliation_text a)) (a # rest)
               = find (\<lambda>a. corresponding a \<and> str_in ''@'' (author_affiliation_text a)) rest"
      using False by auto
    show ?thesis by (simp only: e f Cons.IH)
  qed
qed

text \<open>
  The corresponding author's last token with \<open>@\<close> is \<open>,jane@pharmaco.com.\<close>: the code
  returns it without the comma in front as well, where removing the trailing characters
  only would keep that comma. The first author has an email but is not a corresponding
  author and is passed over.
\<close>

theorem corresponding_email_trailing_counterexample:
  "get_corresponding_author_email ex_author_list_leading = Some ''jane@pharmaco.com''
   \<and> email_as_described (rstrip_chars ''.;,'') ex_author_list_leading = Some '',jane@pharmaco.com''
   \<and> get_corresponding_author_email ex_author_list_leading
       \<noteq> email_as_described (rstrip_chars ''.;,'') ex_author_list_leading"
proof -
  have a: "get_corresponding_author_email ex_author_list_leading = Some ''jane@pharmaco.com''"
    by code_simp
  have b: "email_as_described (rstrip_chars ''.;,'') ex_author_list_leading = Some '',jane@pharmaco.com''"
    by code_simp
  show ?thesis unfolding a b by simp
qed

text \<open>
  C7, as the code has it. An author is a corresponding author exactly when the attribute
  \<open>CorrespondingAuthor\<close> is \<open>"Y"\<close> or the affiliation text contains \<open>Corresponding\<close>.
  The email is taken from the first corresponding author whose affiliation text contains
  \<open>@\<close>: the text is split on whitespace after both parentheses are replaced by spaces,
  and the last token that contains \<open>@\<close> is returned with the characters \<open>.\<close>, \<open>;\<close>
  and \<open>,\<close> removed at both of its ends. Such a token always exists for such an
  author. With no such author the email is unset.
\<close>

theorem get_corresponding_author_email_eq:
  "get_corresponding_author_email author_list_node
     = email_as_described (strip_chars ''.;,'') author_list_node
   \<and> (\<forall>a. str_in ''@'' (author_affiliation_text a)
          \<longrightarrow> find (str_in ''@'') (rev (email_tokens a)) \<noteq> None)
   \<and> (\<forall>a. corresponding a \<longleftrightarrow>
          map_of (attrib a) ''CorrespondingAuthor'' = Some ''Y''
          \<or> str_in ''Corresponding'' (author_affiliation_text a))"
proof -
  have a: "get_corresponding_author_email author_list_node
     = email_as_described (strip_chars ''.;,'') author_list_node"
    by (simp add: get_corresponding_author_email_def email_as_described_def email_author_loop_eq)
  have c: "\<forall>a. corresponding a \<longleftrightarrow>
          map_of (attrib a) ''CorrespondingAuthor'' = Some ''Y''
          \<or> str_in ''Corresponding'' (author_affiliation_text a)"
    by (auto simp: corresponding_def is_corr_attr_def split: option.splits)
  show ?thesis using a c email_token_exists by blast
qed

theorem get_corresponding_author_email_eq_witness:
  "str_in ''@'' (author_affiliation_text
       (ex_author [(''CorrespondingAuthor'', ''Y'')] ''Jane'' ''Doe'' ''Acme Inc (Basel) jane@acme.com.''))
   \<and> corresponding
       (ex_author [(''CorrespondingAuthor'', ''Y'')] ''Jane'' ''Doe'' ''Acme Inc (Basel) jane@acme.com.'')
   \<and> get_corresponding_author_email
        (Element ''AuthorList'' [] None
           [ex_author [(''CorrespondingAuthor'', ''Y'')] ''Jane'' ''Doe'' ''Acme Inc (Basel) jane@acme.com.'']
           None)
       = Some ''jane@acme.com''"
proof -
  let ?a = "ex_author [(''CorrespondingAuthor'', ''Y'')] ''Jane'' ''Doe'' ''Acme Inc (Basel) jane@acme.com.''"
  let ?al = "Element ''AuthorList'' [] None [?a] None"
  have h: "str_in ''@'' (author_affiliation_text ?a)" by code_simp
  have y: "map_of (attrib ?a) ''CorrespondingAuthor'' = Some ''Y''"
    by (simp add: ex_author_def)
  have c: "corresponding ?a"
    using get_corresponding_author_email_eq[of ?al] y by blast
  have t: "find (str_in ''@'') (rev (email_tokens ?a)) \<noteq> None"
    using get_corresponding_author_email_eq[of ?al] h by blast
  have "get_corresponding_author_email ?al = email_as_described (strip_chars ''.;,'') ?al"
    using get_corresponding_author_email_eq[of ?al] by blast
  also have "\<dots> = Some ''jane@acme.com''" by code_simp
  finally show ?thesis using h c by blast
qed

section \<open>The two-article scenario\<close>

text \<open>
  Article A has one author at \<open>PharmaCorp Inc.\<close>, flagged as corresponding author, with an
  email in the affiliation text; article B has a university author only. The step keeps A
  alone.
\<close>

lemma two_article_scenario:
  "article_loop [ex_article_A, ex_article_B] [] =
     [\<lparr>pubmed_id = ''12345678'',
       title = ''A groundbreaking study on novel therapeutics.'',
       publication_date = ''2023-Jan-N/A'',
       non_academic_authors = [''Jane Doe''],
       company_affiliations = [''PharmaCorp Inc., Boston, MA, USA. jane.doe@pharmaco.com.''],
       corresponding_author_email = Some ''jane.doe@pharmaco.com''\<rparr>]"
  by code_simp

end
